theory Spec2Isabelle
  imports Main "HOL-Library.AList" "HOL-Library.Monad_Syntax"
begin

section \<open>Data model\<close>

text \<open>
  A table cell as pandas reads it from a workbook: a Python \<open>str\<close> or an integer.
  Strings are lists of characters, one \<open>char\<close> per code point (code points up to 255).
\<close>

datatype cell = Str string | Num int

text \<open>
  A row of a DataFrame maps column names to values and keeps the column order; a
  DataFrame is the list of its rows in index order.
\<close>

type_synonym drow = "(string \<times> cell) list"
type_synonym frame = "drow list"

text \<open>\<open>df[c] = vs\<close>: an existing column is overwritten in place, a new one is appended.\<close>

definition set_col :: "string \<Rightarrow> cell list \<Rightarrow> frame \<Rightarrow> frame" where
  "set_col c vs df = map2 (\<lambda>r v. AList.update c v r) df vs"

text \<open>\<open>df[c]\<close>: the values of column \<open>c\<close>; \<open>None\<close> stands for the \<open>KeyError\<close> of a missing column.\<close>

definition get_col :: "string \<Rightarrow> frame \<Rightarrow> cell list option" where
  "get_col c df =
     (if list_all (\<lambda>r. map_of r c \<noteq> None) df then Some (map (\<lambda>r. the (map_of r c)) df) else None)"

section \<open>Field extraction (\<open>parse_df\<close>)\<close>

text \<open>The property \<open>column_to_str_index_mapping\<close>: column name, index to slice from, index to slice to.\<close>

definition column_to_str_index_mapping :: "(string \<times> nat \<times> nat) list" where
  "column_to_str_index_mapping =
     [(''quote_date'', 0, 6),
      (''item_id'', 6, 12),
      (''location'', 12, 17),
      (''shop_code'', 17, 21),
      (''prod_size'', 21, 37),
      (''prod_measure_id'', 37, 39),
      (''attribute2'', 39, 119),
      (''attribute3'', 119, 199),
      (''attribute4'', 199, 279),
      (''attribute5'', 279, 359),
      (''attribute6'', 359, 439)]"

text \<open>
  Python's \<open>s[start:stop]\<close> for non-negative bounds: both bounds are clamped to the
  length of \<open>s\<close>, and an empty range gives the empty string. It never raises.
\<close>

definition str_slice :: "nat \<Rightarrow> nat \<Rightarrow> string \<Rightarrow> string" where
  "str_slice start stop s =
     (let n = length s; lo = min start n; hi = max lo (min stop n)
      in take (hi - lo) (drop lo s))"

text \<open>The characters \<open>str.strip()\<close> removes, among the code points below 256.\<close>

definition isspace :: "char \<Rightarrow> bool" where
  "isspace c = (let n = (of_char c :: nat) in
     (9 \<le> n \<and> n \<le> 13) \<or> (28 \<le> n \<and> n \<le> 32) \<or> n = 133 \<or> n = 160)"

definition strip :: "string \<Rightarrow> string" where
  "strip s = rev (dropWhile isspace (rev (dropWhile isspace s)))"

text \<open>
  \<open>parse_df\<close>: the loop over the offset table assigns one column per entry, the sliced
  and stripped text of every record. \<open>raw_str\<close> is column 0 of the loaded sheet. The
  empty frame takes its index from the first column assigned to it.
\<close>

definition parse_df :: "string list \<Rightarrow> frame" where
  "parse_df raw_str =
     fold (\<lambda>(column, start, stop) df_parsed.
             set_col column (map (\<lambda>s. Str (strip (str_slice start stop s))) raw_str) df_parsed)
          column_to_str_index_mapping
          (map (\<lambda>_. []) raw_str)"

section \<open>Shop-code reconciliation (\<open>run_shop_code_transition\<close>)\<close>

text \<open>
  The attributes of \<open>DataframeParser\<close> that the reconciliation reads and writes. The
  attribute \<open>new_col_name\<close> is assigned once, at the start of
  \<open>run_shop_code_transition\<close>, and is the constant below.
\<close>

record DataframeParser =
  df :: frame
  df_transition :: frame
  map_from :: string
  map_to :: string

definition new_col_name :: string where
  "new_col_name = ''actual shop''"

text \<open>Python's \<open>str()\<close> of an integer, and of a cell.\<close>

fun str_of_nat :: "nat \<Rightarrow> string" where
  "str_of_nat n =
     (if n < 10 then [''0123456789'' ! n]
      else str_of_nat (n div 10) @ [''0123456789'' ! (n mod 10)])"

definition str_of_int :: "int \<Rightarrow> string" where
  "str_of_int i = (if i < 0 then CHR ''-'' # str_of_nat (nat (- i)) else str_of_nat (nat i))"

fun to_str :: "cell \<Rightarrow> string" where
  "to_str (Str s) = s"
| "to_str (Num i) = str_of_int i"

text \<open>\<open>Series.astype(str)\<close>.\<close>

definition astype_str :: "cell list \<Rightarrow> cell list" where
  "astype_str vs = map (\<lambda>v. Str (to_str v)) vs"

text \<open>
  Python's \<open>+\<close> on two cells: concatenation of strings, addition of integers, and a
  \<open>TypeError\<close> (\<open>None\<close>) for a string and an integer. On two columns it works
  element by element.
\<close>

fun add_cell :: "cell \<Rightarrow> cell \<Rightarrow> cell option" where
  "add_cell (Str a) (Str b) = Some (Str (a @ b))"
| "add_cell (Num a) (Num b) = Some (Num (a + b))"
| "add_cell _ _ = None"

definition add_col :: "cell list \<Rightarrow> cell list \<Rightarrow> cell list option" where
  "add_col xs ys = those (map2 add_cell xs ys)"

text \<open>The property \<open>item_key_col\<close>: \<open>shop_code + location + item_id\<close>, row by row.\<close>

definition item_key_col :: "DataframeParser \<Rightarrow> cell list option" where
  "item_key_col self = do {
     shop_code \<leftarrow> get_col ''shop_code'' (df self);
     location \<leftarrow> get_col ''location'' (df self);
     shop_loc \<leftarrow> add_col shop_code location;
     item_id \<leftarrow> get_col ''item_id'' (df self);
     add_col shop_loc item_id
   }"

text \<open>
  \<open>duplicated(keep=False)\<close>: a position is marked when its value also stands at
  another position.
\<close>

definition duplicated :: "cell list \<Rightarrow> bool list" where
  "duplicated xs =
     map (\<lambda>i. list_ex (\<lambda>j. j \<noteq> i \<and> xs ! j = xs ! i) [0..<length xs]) [0..<length xs]"

text \<open>\<open>df[mask].reset_index(drop=True)\<close>: the rows whose mask entry is true, in order.\<close>

definition select_rows :: "bool list \<Rightarrow> frame \<Rightarrow> frame" where
  "select_rows keep fr = map fst (filter snd (zip fr keep))"

definition drop_duplicates_on_character_len :: "nat \<Rightarrow> DataframeParser \<Rightarrow> DataframeParser option" where
  "drop_duplicates_on_character_len shop_code_len self = do {
     keys \<leftarrow> get_col (map_from self) (df self);
     shop_code \<leftarrow> get_col ''shop_code'' (df self);
     let duplicates = duplicated keys;
     let shop_code_is_4_chars = map (\<lambda>v. length (to_str v) = shop_code_len) shop_code;
     let mask' = map2 (\<lambda>d f. \<not> (d \<and> f)) duplicates shop_code_is_4_chars;
     Some (self\<lparr>df := select_rows mask' (df self)\<rparr>)
   }"

definition cast_columns :: "string \<Rightarrow> DataframeParser \<Rightarrow> DataframeParser option" where
  "cast_columns col self = do {
     own \<leftarrow> get_col col (df self);
     let self = self\<lparr>df := set_col col (astype_str own) (df self)\<rparr>;
     shared \<leftarrow> get_col col (df_transition self);
     Some (self\<lparr>df_transition := set_col col (astype_str shared) (df_transition self)\<rparr>)
   }"

text \<open>
  \<open>Series.replace(to_replace=src, value=dst, inplace=True)\<close> with two arrays, on a
  column taken from the frame; the frame's own column is replaced, as it is in pandas 1.
  The positions equal to each \<open>src\<close> entry are found on the values as they were
  before any replacement, and the pairs are then applied in order, so a later pair with
  the same \<open>src\<close> overwrites an earlier one.
\<close>

definition replace_list :: "cell list \<Rightarrow> cell list \<Rightarrow> cell list \<Rightarrow> cell list" where
  "replace_list src dst xs =
     fold (\<lambda>(s, d) ys. map2 (\<lambda>x y. if x = s then d else y) xs ys) (zip src dst) xs"

definition map_shop_codes :: "string \<Rightarrow> string \<Rightarrow> DataframeParser \<Rightarrow> DataframeParser option" where
  "map_shop_codes map_from' map_to' self = do {
     keys \<leftarrow> get_col map_from' (df self);
     let self = self\<lparr>df := set_col new_col_name keys (df self)\<rparr>;
     new_col \<leftarrow> get_col new_col_name (df self);
     to_replace \<leftarrow> get_col map_from' (df_transition self);
     value \<leftarrow> get_col map_to' (df_transition self);
     Some (self\<lparr>df := set_col new_col_name (replace_list to_replace value new_col) (df self)\<rparr>)
   }"

definition backfill_unmatched_values :: "string \<Rightarrow> DataframeParser \<Rightarrow> DataframeParser option" where
  "backfill_unmatched_values fill_unmatched_with self = do {
     new_col \<leftarrow> get_col new_col_name (df self);
     keys \<leftarrow> get_col (map_from self) (df self);
     let mask' = map (\<lambda>v. v \<in> set keys) new_col;
     fill \<leftarrow> get_col fill_unmatched_with (df self);
     Some (self\<lparr>df := set_col new_col_name
                          (map (\<lambda>(m, old, new). if m then new else old) (zip mask' (zip new_col fill)))
                          (df self)\<rparr>)
   }"

text \<open>\<open>df.drop(columns=[c])\<close>; \<open>None\<close> is the \<open>KeyError\<close> of a missing column.\<close>

definition drop_column :: "string \<Rightarrow> frame \<Rightarrow> frame option" where
  "drop_column c fr =
     (if list_all (\<lambda>r. map_of r c \<noteq> None) fr then Some (map (AList.delete c) fr) else None)"

definition run_shop_code_transition :: "DataframeParser \<Rightarrow> DataframeParser option" where
  "run_shop_code_transition self = do {
     key \<leftarrow> item_key_col self;
     let self = self\<lparr>df := set_col (map_from self) key (df self)\<rparr>;
     self \<leftarrow> drop_duplicates_on_character_len 4 self;
     self \<leftarrow> cast_columns (map_from self) self;
     self \<leftarrow> map_shop_codes (map_from self) (map_to self) self;
     self \<leftarrow> backfill_unmatched_values ''shop_code'' self;
     dropped \<leftarrow> drop_column (map_from self) (df self);
     Some (self\<lparr>df := dropped\<rparr>)
   }"

text \<open>
  \<open>DataframeParser.run\<close> as \<open>main\<close> starts it, between loading and writing:
  \<open>raw_str\<close> is column 0 of the loaded sheet, \<open>transition\<close> the transition table, and
  the two column names are those \<open>main\<close> passes.
\<close>

definition run :: "string list \<Rightarrow> frame \<Rightarrow> DataframeParser option" where
  "run raw_str transition =
     run_shop_code_transition
       \<lparr>df = parse_df raw_str, df_transition = transition,
        map_from = ''KEY'', map_to = ''Shop Code''\<rparr>"

section \<open>File selection (\<open>find_files\<close>)\<close>

text \<open>
  A \<open>datetime\<close> that \<open>strptime(_, "%Y%m")\<close> returns is the first instant of a month:
  it is kept as the pair of its year and month, ordered as datetimes are.
\<close>

type_synonym datetime = "nat \<times> nat"

definition datetime_le :: "datetime \<Rightarrow> datetime \<Rightarrow> bool" where
  "datetime_le a b = (fst a < fst b \<or> (fst a = fst b \<and> snd a \<le> snd b))"

definition isdigit :: "char \<Rightarrow> bool" where
  "isdigit c = (48 \<le> (of_char c :: nat) \<and> (of_char c :: nat) \<le> 57)"

definition digit_val :: "char \<Rightarrow> nat" where
  "digit_val c = of_char c - 48"

definition int_of_digits :: "string \<Rightarrow> nat" where
  "int_of_digits s = foldl (\<lambda>n c. 10 * n + digit_val c) 0 s"

text \<open>
  The directive \<open>%m\<close> is the regular expression \<open>1[0-2]|0[1-9]|[1-9]\<close>: the
  alternatives are tried in this order at the start of the text, and the first that
  matches gives the month and the text left over.
\<close>

definition match_month :: "string \<Rightarrow> (nat \<times> string) option" where
  "match_month s =
     (case s of
        [] \<Rightarrow> None
      | c # cs \<Rightarrow>
          (case cs of
             d # rest \<Rightarrow>
               if c = CHR ''1'' \<and> d \<in> set ''012'' then Some (10 + digit_val d, rest)
               else if c = CHR ''0'' \<and> d \<in> set ''123456789'' then Some (digit_val d, rest)
               else if c \<in> set ''123456789'' then Some (digit_val c, cs)
               else None
           | [] \<Rightarrow> if c \<in> set ''123456789'' then Some (digit_val c, []) else None))"

text \<open>
  \<open>datetime.datetime.strptime(date, "%Y%m")\<close>: four digits of year (\<open>%Y\<close> is
  \<open>\d\d\d\d\<close>), then the month, and nothing left over; year 0 is no date. \<open>None\<close> stands
  for the \<open>ValueError\<close>.
\<close>

definition strptime_Ym :: "string \<Rightarrow> datetime option" where
  "strptime_Ym date =
     (if 4 \<le> length date \<and> list_all isdigit (take 4 date) then
        (case match_month (drop 4 date) of
           None \<Rightarrow> None
         | Some (month, rest) \<Rightarrow>
             if rest = [] \<and> 1 \<le> int_of_digits (take 4 date)
             then Some (int_of_digits (take 4 date), month) else None)
      else None)"

text \<open>\<open>str.split(sep)\<close> for a separator of one character.\<close>

fun split :: "char \<Rightarrow> string \<Rightarrow> string list" where
  "split sep [] = [[]]"
| "split sep (c # cs) =
     (if c = sep then [] # split sep cs
      else (case split sep cs of w # ws \<Rightarrow> (c # w) # ws | [] \<Rightarrow> [[c]]))"

text \<open>\<open>str.rfind(c)\<close>: the last position of \<open>c\<close>, \<open>None\<close> for Python's \<open>-1\<close>.\<close>

fun rfind :: "char \<Rightarrow> string \<Rightarrow> nat option" where
  "rfind c [] = None"
| "rfind c (x # xs) =
     (case rfind c xs of
        Some i \<Rightarrow> Some (Suc i)
      | None \<Rightarrow> if x = c then Some 0 else None)"

text \<open>\<open>Path.stem\<close> of a path, given by its final component \<open>name\<close>.\<close>

definition stem :: "string \<Rightarrow> string" where
  "stem name =
     (case rfind (CHR ''.'') name of
        Some i \<Rightarrow> if 0 < i \<and> i < length name - 1 then take i name else name
      | None \<Rightarrow> name)"

text \<open>
  \<open>find_files\<close>: \<open>files_searched\<close> is what \<open>dir_in.glob(file_pattern)\<close> yields (the
  search is not recursive, so a path is given by its file name); the loop appends to
  \<open>files_to_clean\<close>, and \<open>continue\<close> leaves it as it is.
\<close>

definition find_files :: "string list \<Rightarrow> datetime \<Rightarrow> datetime \<Rightarrow> string list" where
  "find_files files_searched date_start date_stop =
     fold (\<lambda>f files_to_clean.
             let date = last (split (CHR ''_'') (stem f)) in
             case strptime_Ym date of
               None \<Rightarrow> files_to_clean
             | Some date_fmt \<Rightarrow>
                 if datetime_le date_start date_fmt \<and> datetime_le date_fmt date_stop
                 then files_to_clean @ [f] else files_to_clean)
          files_searched []"

section \<open>Auxiliary notions used to state the properties\<close>

text \<open>The row that one record yields: every column of the offset table, in its order.\<close>

definition parse_record :: "string \<Rightarrow> drow" where
  "parse_record s =
     map (\<lambda>(column, start, stop). (column, Str (strip (str_slice start stop s))))
       column_to_str_index_mapping"

text \<open>The test that the loop of \<open>find_files\<close> applies to one candidate.\<close>

definition in_range :: "datetime \<Rightarrow> datetime \<Rightarrow> string \<Rightarrow> bool" where
  "in_range date_start date_stop f =
     (case strptime_Ym (last (split (CHR ''_'') (stem f))) of
        None \<Rightarrow> False
      | Some date_fmt \<Rightarrow> datetime_le date_start date_fmt \<and> datetime_le date_fmt date_stop)"

text \<open>
  The text of column \<open>c\<close> in a row, and the test that the column holds a string. A
  row is \<open>keyable\<close> when its three key columns hold strings, as every row that
  \<open>parse_df\<close> builds does.
\<close>

definition text_of :: "string \<Rightarrow> drow \<Rightarrow> string" where
  "text_of c r = (case map_of r c of Some v \<Rightarrow> to_str v | None \<Rightarrow> [])"

definition is_text :: "string \<Rightarrow> drow \<Rightarrow> bool" where
  "is_text c r = (case map_of r c of Some (Str s) \<Rightarrow> True | _ \<Rightarrow> False)"

definition keyable :: "drow \<Rightarrow> bool" where
  "keyable r = (is_text ''shop_code'' r \<and> is_text ''location'' r \<and> is_text ''item_id'' r)"

text \<open>The composite key of a row: shop code, location and item id, one after the other.\<close>

definition key_of :: "drow \<Rightarrow> string" where
  "key_of r = text_of ''shop_code'' r @ text_of ''location'' r @ text_of ''item_id'' r"

text \<open>
  A row is suppressed when its composite key stands at least twice in the table and
  its shop code has exactly four characters.
\<close>

definition suppressed :: "frame \<Rightarrow> drow \<Rightarrow> bool" where
  "suppressed fr r = (2 \<le> count_list (map key_of fr) (key_of r) \<and> length (text_of ''shop_code'' r) = 4)"

definition survivors :: "frame \<Rightarrow> frame" where
  "survivors fr = filter (\<lambda>r. \<not> suppressed fr r) fr"

text \<open>
  What a list of replacement pairs makes of a value: the target of the last pair whose
  source is the value, and the value itself when no pair has it as source.
\<close>

definition lookup_last :: "(cell \<times> cell) list \<Rightarrow> cell \<Rightarrow> cell" where
  "lookup_last pairs x = (case map_of (rev pairs) x of Some d \<Rightarrow> d | None \<Rightarrow> x)"

text \<open>
  The row with its key column assigned, the value its new column ends with, and the row
  that leaves the reconciliation.
\<close>

definition with_key :: "drow \<Rightarrow> drow" where
  "with_key r = AList.update ''KEY'' (Str (key_of r)) r"

definition actual_shop :: "frame \<Rightarrow> (cell \<times> cell) list \<Rightarrow> drow \<Rightarrow> cell" where
  "actual_shop rows pairs r =
     (let v = lookup_last pairs (Str (key_of r))
      in if v \<in> set (map (\<lambda>r'. Str (key_of r')) rows) then Str (text_of ''shop_code'' r) else v)"

definition reconciled :: "frame \<Rightarrow> (cell \<times> cell) list \<Rightarrow> drow \<Rightarrow> drow" where
  "reconciled rows pairs r =
     AList.delete ''KEY'' (AList.update ''actual shop'' (actual_shop rows pairs r) (with_key r))"

text \<open>
  In the words of the specification, a \<open>YYYYMM\<close> date is six digits: a year, from
  0001 as a date has it, and a month from 01 to 12. \<open>valid_yyyym\<close> is the same with
  the month written as one digit, 1 to 9. \<open>date_of\<close> reads the year from the first
  four characters and the month from the rest.
\<close>

definition date_of :: "string \<Rightarrow> datetime" where
  "date_of date = (int_of_digits (take 4 date), int_of_digits (drop 4 date))"

definition valid_yyyymm :: "string \<Rightarrow> bool" where
  "valid_yyyymm date =
     (length date = 6 \<and> list_all isdigit date
      \<and> 1 \<le> fst (date_of date) \<and> 1 \<le> snd (date_of date) \<and> snd (date_of date) \<le> 12)"

definition valid_yyyym :: "string \<Rightarrow> bool" where
  "valid_yyyym date =
     (length date = 5 \<and> list_all isdigit date
      \<and> 1 \<le> fst (date_of date) \<and> 1 \<le> snd (date_of date))"

section \<open>Slicing and stripping\<close>

lemma str_slice_eq: "str_slice a b s = drop a (take b s)"
  by (auto simp: str_slice_def Let_def drop_take min_def max_def)

lemma str_slice_nth: "b \<le> length s \<Longrightarrow> str_slice a b s = map (nth s) [a..<b]"
  unfolding str_slice_eq by (rule nth_equalityI) auto

lemma str_slice_short: "length s \<le> b \<Longrightarrow> str_slice a b s = drop a s"
  by (simp add: str_slice_eq)

lemma length_str_slice: "length (str_slice a b s) \<le> b - a"
  by (simp add: str_slice_eq)

lemma length_strip: "length (strip s) \<le> length s"
  unfolding strip_def
  by (metis length_dropWhile_le length_rev order_trans)

lemma length_dropWhile_eq:
  "length (dropWhile P xs) = length xs \<longleftrightarrow> (xs = [] \<or> \<not> P (hd xs))"
proof (cases xs)
  case Nil then show ?thesis by simp
next
  case (Cons c cs)
  have "length (dropWhile P cs) \<le> length cs" by (rule length_dropWhile_le)
  then show ?thesis using Cons by auto
qed

lemma strip_id_iff:
  "length (strip s) = length s \<longleftrightarrow> (s = [] \<or> (\<not> isspace (hd s) \<and> \<not> isspace (last s)))"
proof (cases "s = [] \<or> \<not> isspace (hd s)")
  case True
  then have d: "dropWhile isspace s = s" by (cases s) auto
  have "length (strip s) = length s \<longleftrightarrow> length (dropWhile isspace (rev s)) = length (rev s)"
    by (simp add: strip_def d)
  also have "\<dots> \<longleftrightarrow> (rev s = [] \<or> \<not> isspace (hd (rev s)))"
    by (rule length_dropWhile_eq)
  finally show ?thesis using True by (auto simp: hd_rev)
next
  case False
  then have "length (dropWhile isspace s) \<noteq> length s"
    by (simp add: length_dropWhile_eq)
  moreover have "length (dropWhile isspace s) \<le> length s" by (rule length_dropWhile_le)
  moreover have "length (strip s) \<le> length (dropWhile isspace s)"
    unfolding strip_def length_rev by (rule length_dropWhile_le[of isspace "rev (dropWhile isspace s)", simplified])
  ultimately have "length (strip s) \<noteq> length s" by linarith
  then show ?thesis using False by auto
qed

lemma strip_eq_iff: "length (strip s) = length s \<longleftrightarrow> strip s = s"
proof
  assume "length (strip s) = length s"
  then have h: "s = [] \<or> (\<not> isspace (hd s) \<and> \<not> isspace (last s))"
    by (simp add: strip_id_iff)
  show "strip s = s"
  proof (cases "s = []")
    case True then show ?thesis by (simp add: strip_def)
  next
    case False
    then have d: "dropWhile isspace s = s" using h by (cases s) auto
    have "rev s \<noteq> []" using False by simp
    moreover have "\<not> isspace (hd (rev s))" using h False by (simp add: hd_rev)
    ultimately have "dropWhile isspace (rev s) = rev s" by (cases "rev s") auto
    then show ?thesis by (simp add: strip_def d)
  qed
qed simp

section \<open>Rows of the parsed frame\<close>

lemma set_col_map: "set_col c (map h xs) (map g xs) = map (\<lambda>x. AList.update c (h x) (g x)) xs"
  by (induction xs) (simp_all add: set_col_def)

lemma fold_set_col:
  "fold (\<lambda>(c, a, b) df. set_col c (map (f a b) raw) df) m (map g raw)
   = map (\<lambda>s. fold (\<lambda>(c, a, b) r. AList.update c (f a b s) r) m (g s)) raw"
proof (induction m arbitrary: g)
  case Nil show ?case by simp
next
  case (Cons e m)
  obtain c a b where e: "e = (c, a, b)" by (cases e) auto
  show ?case using Cons[of "\<lambda>s. AList.update c (f a b s) (g s)"]
    by (simp add: e set_col_map)
qed

lemma parse_df_rows: "parse_df raw = map parse_record raw"
proof -
  have "parse_df raw = map (\<lambda>s. fold (\<lambda>(c, a, b) r. AList.update c (Str (strip (str_slice a b s))) r) column_to_str_index_mapping []) raw"
    unfolding parse_df_def
    by (rule fold_set_col[where f = "\<lambda>a b s. Str (strip (str_slice a b s))" and g = "\<lambda>_. []"])
  also have "\<dots> = map parse_record raw"
    by (simp add: parse_record_def column_to_str_index_mapping_def)
  finally show ?thesis .
qed

lemma parse_record_all:
  "list_all (\<lambda>(c, a, b). map_of (parse_record s) c = Some (Str (strip (str_slice a b s))) \<and> b \<le> 439)
     column_to_str_index_mapping"
  by (simp add: parse_record_def column_to_str_index_mapping_def)

lemma map_of_parse_record:
  "(c, a, b) \<in> set column_to_str_index_mapping \<Longrightarrow>
   map_of (parse_record s) c = Some (Str (strip (str_slice a b s))) \<and> b \<le> 439"
  using parse_record_all[of s] unfolding list_all_iff by blast

lemma fst_parse_record: "map fst (parse_record s) = map fst column_to_str_index_mapping"
  unfolding parse_record_def by (simp add: case_prod_unfold comp_def)

section \<open>Properties of field extraction\<close>



text \<open>
  Claim C5. A record shorter than 439 characters is extracted all the same: slicing is
  total, the row has every column of the offset table, and a column whose range runs
  past the end of the record holds what is left of the record from \<open>start\<close> on,
  stripped; this is the empty string when the record ends at or before \<open>start\<close>.
\<close>

theorem parse_df_short_record:
  assumes "i < length raw_str" and "length (raw_str ! i) < 439"
  shows "length (parse_df raw_str) = length raw_str
       \<and> map fst (parse_df raw_str ! i) = map fst column_to_str_index_mapping
       \<and> (\<forall>(column, start, stop) \<in> set column_to_str_index_mapping.
            length (raw_str ! i) < stop \<longrightarrow>
              map_of (parse_df raw_str ! i) column = Some (Str (strip (drop start (raw_str ! i))))
              \<and> (length (raw_str ! i) \<le> start \<longrightarrow> map_of (parse_df raw_str ! i) column = Some (Str [])))"
proof -
  have row: "parse_df raw_str ! i = parse_record (raw_str ! i)"
    using assms(1) by (simp add: parse_df_rows)
  have "map_of (parse_record (raw_str ! i)) column = Some (Str (strip (drop start (raw_str ! i))))
        \<and> (length (raw_str ! i) \<le> start \<longrightarrow> map_of (parse_record (raw_str ! i)) column = Some (Str []))"
    if "(column, start, stop) \<in> set column_to_str_index_mapping" and "length (raw_str ! i) < stop"
    for column start stop
    using map_of_parse_record[OF that(1), of "raw_str ! i"] that(2)
    by (simp add: str_slice_short strip_def)
  then show ?thesis
    unfolding row by (auto simp: fst_parse_record parse_df_rows)
qed

theorem parse_df_short_record_witness:
  "(0::nat) < length [''201701000123LOC01A1'']
   \<and> length ([''201701000123LOC01A1''] ! 0) < 439
   \<and> map_of (parse_df [''201701000123LOC01A1''] ! 0) ''shop_code'' = Some (Str ''A1'')
   \<and> map_of (parse_df [''201701000123LOC01A1''] ! 0) ''prod_size'' = Some (Str [])"
  using parse_df_short_record[of 0 "[''201701000123LOC01A1'']"]
  by (simp add: column_to_str_index_mapping_def strip_def isspace_def)

text \<open>
  Claim C10. Every extracted value is a string no longer than \<open>stop - start\<close>. The
  shop code has at most four characters, and the test of duplicate suppression, that
  its text has length four, holds exactly when the record reaches position 21 and the
  value is the four characters at positions 17 to 20 as they stand, with nothing
  stripped.
\<close>

theorem parse_df_field_length:
  assumes "i < length raw_str"
  shows "(\<forall>(column, start, stop) \<in> set column_to_str_index_mapping.
            \<exists>v. map_of (parse_df raw_str ! i) column = Some (Str v) \<and> length v \<le> stop - start)
       \<and> (\<exists>v. map_of (parse_df raw_str ! i) ''shop_code'' = Some (Str v) \<and> length v \<le> 4
            \<and> (length (to_str (Str v)) = 4 \<longleftrightarrow>
                 21 \<le> length (raw_str ! i) \<and> v = map (nth (raw_str ! i)) [17..<21]))"
proof -
  let ?s = "raw_str ! i"
  have row: "parse_df raw_str ! i = parse_record ?s"
    using assms(1) by (simp add: parse_df_rows)
  have fields: "\<exists>v. map_of (parse_record ?s) column = Some (Str v) \<and> length v \<le> stop - start"
    if "(column, start, stop) \<in> set column_to_str_index_mapping" for column start stop
    using map_of_parse_record[OF that, of ?s] length_strip[of "str_slice start stop ?s"]
      length_str_slice[of start stop ?s] by auto
  let ?x = "str_slice 17 21 ?s"
  have sc: "map_of (parse_record ?s) ''shop_code'' = Some (Str (strip ?x))"
    by (simp add: parse_record_def column_to_str_index_mapping_def)
  have le: "length (strip ?x) \<le> length ?x" "length ?x \<le> 4"
    using length_strip[of ?x] length_str_slice[of 17 21 ?s] by simp_all
  have lx: "length ?x = min 21 (length ?s) - 17" by (simp add: str_slice_eq)
  have "length (strip ?x) = 4 \<longleftrightarrow> 21 \<le> length ?s \<and> strip ?x = map (nth ?s) [17..<21]"
  proof
    assume a: "length (strip ?x) = 4"
    then have l4: "length ?x = 4" using le by linarith
    then have "21 \<le> length ?s" using lx by (simp add: min_def split: if_splits)
    moreover have "strip ?x = ?x" using a l4 strip_eq_iff[of ?x] by simp
    ultimately show "21 \<le> length ?s \<and> strip ?x = map (nth ?s) [17..<21]"
      by (simp add: str_slice_nth)
  next
    assume "21 \<le> length ?s \<and> strip ?x = map (nth ?s) [17..<21]"
    then show "length (strip ?x) = 4" by simp
  qed
  then have "\<exists>v. map_of (parse_record ?s) ''shop_code'' = Some (Str v) \<and> length v \<le> 4
            \<and> (length (to_str (Str v)) = 4 \<longleftrightarrow> 21 \<le> length ?s \<and> v = map (nth ?s) [17..<21])"
    using sc le by simp
  then show ?thesis unfolding row using fields by blast
qed

theorem parse_df_field_length_witness:
  "(0::nat) < length [''201701000123LOC01 A1 rest'']
   \<and> map_of (parse_df [''201701000123LOC01 A1 rest''] ! 0) ''shop_code'' = Some (Str ''A1'')
   \<and> (\<exists>v. map_of (parse_df [''201701000123LOC01 A1 rest''] ! 0) ''shop_code'' = Some (Str v)
           \<and> length v \<le> 4)"
  using parse_df_field_length[of 0 "[''201701000123LOC01 A1 rest'']"]
  by (simp add: parse_df_rows parse_record_def column_to_str_index_mapping_def
        str_slice_def strip_def isspace_def)

section \<open>Properties of file selection\<close>

lemma split_nonempty: "split sep s \<noteq> []"
  by (induction s) (auto split: list.splits)

lemma split_no_sep: "sep \<notin> set w \<Longrightarrow> split sep w = [w]"
  by (induction w) auto

lemma split_append: "split sep (p @ sep # w) = split sep p @ split sep w"
proof (induction p)
  case Nil show ?case by simp
next
  case (Cons c p)
  obtain x xs where s: "split sep p = x # xs"
    using split_nonempty[of sep p] by (cases "split sep p") auto
  show ?case using Cons by (simp add: s)
qed

lemma last_split_suffix: "sep \<notin> set w \<Longrightarrow> last (split sep (p @ sep # w)) = w"
  by (simp add: split_append split_no_sep)

lemma match_month_range: "match_month s = Some (m, rest) \<Longrightarrow> 1 \<le> m \<and> m \<le> 12"
  unfolding match_month_def
  by (auto simp: digit_val_def split: list.splits if_splits)

lemma strptime_Ym_valid:
  "strptime_Ym date = Some (y, m) \<Longrightarrow> 1 \<le> y \<and> 1 \<le> m \<and> m \<le> 12"
  unfolding strptime_Ym_def
  by (auto split: if_splits option.splits dest: match_month_range)

lemma find_files_fold:
  "fold (\<lambda>f files_to_clean.
             let date = last (split (CHR ''_'') (stem f)) in
             case strptime_Ym date of
               None \<Rightarrow> files_to_clean
             | Some date_fmt \<Rightarrow>
                 if datetime_le date_start date_fmt \<and> datetime_le date_fmt date_stop
                 then files_to_clean @ [f] else files_to_clean) fs acc
   = acc @ filter (in_range date_start date_stop) fs"
  by (induction fs arbitrary: acc) (auto simp: in_range_def Let_def split: option.splits)

lemma find_files_filter:
  "find_files fs date_start date_stop = filter (in_range date_start date_stop) fs"
  unfolding find_files_def
  using find_files_fold[of date_start date_stop fs "[]"] by simp

lemma strptime_202013: "strptime_Ym ''202013'' = None"
  by (simp add: strptime_Ym_def match_month_def isdigit_def)

lemma of_char_48: "of_char c = (n::nat) \<Longrightarrow> n = of_char d \<Longrightarrow> c = d"
  by simp

lemma isdigit_cases: "isdigit c \<longleftrightarrow> c \<in> set ''0123456789''"
proof
  assume "isdigit c"
  then have "(of_char c :: nat) = 48 \<or> (of_char c :: nat) = 49 \<or> (of_char c :: nat) = 50
      \<or> (of_char c :: nat) = 51 \<or> (of_char c :: nat) = 52 \<or> (of_char c :: nat) = 53
      \<or> (of_char c :: nat) = 54 \<or> (of_char c :: nat) = 55 \<or> (of_char c :: nat) = 56
      \<or> (of_char c :: nat) = 57"
    unfolding isdigit_def by arith
  then have "c = CHR ''0'' \<or> c = CHR ''1'' \<or> c = CHR ''2'' \<or> c = CHR ''3'' \<or> c = CHR ''4''
      \<or> c = CHR ''5'' \<or> c = CHR ''6'' \<or> c = CHR ''7'' \<or> c = CHR ''8'' \<or> c = CHR ''9''"
    by (elim disjE) (simp_all add: of_char_48)
  then show "c \<in> set ''0123456789''" by simp
next
  assume "c \<in> set ''0123456789''"
  then show "isdigit c" by (auto simp: isdigit_def)
qed


lemma digit_facts:
  assumes "isdigit c"
  shows "(c = CHR ''1'') = (digit_val c = 1)"
    and "(c = CHR ''0'') = (digit_val c = 0)"
    and "(c \<in> set ''012'') = (digit_val c \<le> 2)"
    and "(c \<in> set ''123456789'') = (1 \<le> digit_val c)"
    and "digit_val c \<le> 9"
proof -
  have "c = CHR ''0'' \<or> c = CHR ''1'' \<or> c = CHR ''2'' \<or> c = CHR ''3'' \<or> c = CHR ''4''
      \<or> c = CHR ''5'' \<or> c = CHR ''6'' \<or> c = CHR ''7'' \<or> c = CHR ''8'' \<or> c = CHR ''9''"
    using assms by (simp add: isdigit_cases)
  then show "(c = CHR ''1'') = (digit_val c = 1)"
    and "(c = CHR ''0'') = (digit_val c = 0)"
    and "(c \<in> set ''012'') = (digit_val c \<le> 2)"
    and "(c \<in> set ''123456789'') = (1 \<le> digit_val c)"
    and "digit_val c \<le> 9"
    by (elim disjE; simp add: digit_val_def)+
qed

lemma char_tests:
  "(c = CHR ''1'') = (isdigit c \<and> digit_val c = 1)"
  "(c = CHR ''0'') = (isdigit c \<and> digit_val c = 0)"
  "(c \<in> set ''012'') = (isdigit c \<and> digit_val c \<le> 2)"
  "(c \<in> set ''123456789'') = (isdigit c \<and> 1 \<le> digit_val c)"
proof -
  show "(c = CHR ''1'') = (isdigit c \<and> digit_val c = 1)"
    using digit_facts(1)[of c] by (cases "isdigit c") (auto simp: isdigit_cases)
  show "(c = CHR ''0'') = (isdigit c \<and> digit_val c = 0)"
    using digit_facts(2)[of c] by (cases "isdigit c") (auto simp: isdigit_cases)
  show "(c \<in> set ''012'') = (isdigit c \<and> digit_val c \<le> 2)"
    using digit_facts(3)[of c] by (cases "isdigit c") (auto simp: isdigit_cases)
  show "(c \<in> set ''123456789'') = (isdigit c \<and> 1 \<le> digit_val c)"
    using digit_facts(4)[of c] by (cases "isdigit c") (auto simp: isdigit_cases)
qed

lemma match_month_numeric:
  "match_month s =
     (case s of
        [] \<Rightarrow> None
      | c # cs \<Rightarrow>
          (case cs of
             d # rest \<Rightarrow>
               if (isdigit c \<and> digit_val c = 1) \<and> (isdigit d \<and> digit_val d \<le> 2)
               then Some (10 + digit_val d, rest)
               else if (isdigit c \<and> digit_val c = 0) \<and> (isdigit d \<and> 1 \<le> digit_val d)
               then Some (digit_val d, rest)
               else if (isdigit c \<and> 1 \<le> digit_val c) then Some (digit_val c, cs)
               else None
           | [] \<Rightarrow> if (isdigit c \<and> 1 \<le> digit_val c) then Some (digit_val c, []) else None))"
  unfolding match_month_def char_tests ..

lemma match_month_one:
  "match_month [c] = (if isdigit c \<and> 1 \<le> digit_val c then Some (digit_val c, []) else None)"
  by (simp add: match_month_numeric)

lemma match_month_two:
  "(case match_month [c, d] of Some (m, rest) \<Rightarrow> if rest = [] then Some m else None | None \<Rightarrow> None)
   = (if isdigit c \<and> isdigit d \<and> 1 \<le> 10 * digit_val c + digit_val d
         \<and> 10 * digit_val c + digit_val d \<le> 12
      then Some (10 * digit_val c + digit_val d) else None)"
proof -
  have "digit_val c \<le> 9" if "isdigit c" using that by (rule digit_facts(5))
  moreover have "digit_val d \<le> 9" if "isdigit d" using that by (rule digit_facts(5))
  ultimately show ?thesis
    by (auto simp: match_month_numeric)
qed

lemma match_month_more:
  "(case match_month (c # d # e # r) of Some (m, rest) \<Rightarrow> if rest = [] then Some m else None | None \<Rightarrow> None)
   = None"
  by (simp add: match_month_numeric)


lemma strptime_Ym_month:
  "strptime_Ym date =
     (if 4 \<le> length date \<and> list_all isdigit (take 4 date) \<and> 1 \<le> int_of_digits (take 4 date)
      then (case (case match_month (drop 4 date) of
                    Some (m, rest) \<Rightarrow> if rest = [] then Some m else None
                  | None \<Rightarrow> None) of
              Some m \<Rightarrow> Some (int_of_digits (take 4 date), m)
            | None \<Rightarrow> None)
      else None)"
  by (auto simp: strptime_Ym_def split: option.splits)

lemma strptime_Ym_iff:
  "strptime_Ym date = (if valid_yyyymm date \<or> valid_yyyym date then Some (date_of date) else None)"
proof (cases "4 \<le> length date")
  case False
  then show ?thesis
    by (simp add: strptime_Ym_def valid_yyyymm_def valid_yyyym_def)
next
  case True
  let ?Y = "take 4 date" and ?M = "drop 4 date"
  have len: "length date = 4 + length ?M" using True by simp
  have dig: "list_all isdigit date = (list_all isdigit ?Y \<and> list_all isdigit ?M)"
    using list_all_append[of isdigit ?Y ?M] by simp
  show ?thesis
  proof (cases ?M)
    case Nil
    then show ?thesis
      unfolding strptime_Ym_month valid_yyyymm_def valid_yyyym_def len
      by (simp add: match_month_numeric)
  next
    case (Cons c cs)
    note M1 = Cons
    show ?thesis
    proof (cases cs)
      case Nil
      then have M: "?M = [c]" using M1 by simp
      show ?thesis
        unfolding strptime_Ym_month valid_yyyymm_def valid_yyyym_def len dig date_of_def M
        using True by (simp add: match_month_one int_of_digits_def)
    next
      case (Cons d ds)
      note M2 = Cons
      show ?thesis
      proof (cases ds)
        case Nil
        then have M: "?M = [c, d]" using M1 M2 by simp
        show ?thesis
          unfolding strptime_Ym_month valid_yyyymm_def valid_yyyym_def len dig date_of_def M
            match_month_two
          using True by (simp add: int_of_digits_def)
      next
        case (Cons e r)
        then have M: "?M = c # d # e # r" using M1 M2 by simp
        show ?thesis
          unfolding strptime_Ym_month valid_yyyymm_def valid_yyyym_def len dig date_of_def M
            match_month_more
          by simp
      qed
    qed
  qed
qed

text \<open>
  Claim C9, as stated, fails on a token of five characters: \<open>strptime\<close> reads
  \<open>20201\<close> as January 2020, since \<open>%m\<close> also matches a month of one digit, and
  the file is selected although its token is no \<open>YYYYMM\<close> date.
\<close>

theorem find_files_yyyymm_counterexample:
  "find_files [''x_20201.xlsx''] (2020, 1) (2020, 1) = [''x_20201.xlsx'']
   \<and> last (split (CHR ''_'') (stem ''x_20201.xlsx'')) = ''20201''
   \<and> \<not> valid_yyyymm ''20201''"
  by code_simp

text \<open>
  Claim C9, amended. \<open>find_files\<close> returns, in the order of the candidates, exactly
  those whose stem's last token between underscores is a \<open>YYYYMM\<close> date, or a
  year of four digits followed by a month of one digit from 1 to 9, and whose year and
  month lie between \<open>date_start\<close> and \<open>date_stop\<close>, both included. A candidate
  whose token has neither form is left out without an error, whatever the bounds; so is
  every name whose stem ends in \<open>_202013\<close>.
\<close>

theorem find_files_accepts:
  "find_files files_searched date_start date_stop
     = filter (\<lambda>f. (valid_yyyymm (last (split (CHR ''_'') (stem f)))
                     \<or> valid_yyyym (last (split (CHR ''_'') (stem f))))
                  \<and> datetime_le date_start (date_of (last (split (CHR ''_'') (stem f))))
                  \<and> datetime_le (date_of (last (split (CHR ''_'') (stem f)))) date_stop)
         files_searched
   \<and> (\<forall>f \<in> set files_searched.
         \<not> valid_yyyymm (last (split (CHR ''_'') (stem f)))
         \<and> \<not> valid_yyyym (last (split (CHR ''_'') (stem f))) \<longrightarrow>
           f \<notin> set (find_files files_searched date_start date_stop))
   \<and> (\<forall>f p. stem f = p @ ''_202013'' \<longrightarrow>
           f \<notin> set (find_files files_searched date_start date_stop))"
proof -
  let ?tok = "\<lambda>f. last (split (CHR ''_'') (stem f))"
  let ?P = "\<lambda>f. (valid_yyyymm (?tok f) \<or> valid_yyyym (?tok f))
                  \<and> datetime_le date_start (date_of (?tok f))
                  \<and> datetime_le (date_of (?tok f)) date_stop"
  have ir: "in_range date_start date_stop f = ?P f" for f
    by (simp add: in_range_def strptime_Ym_iff)
  have eq: "find_files files_searched date_start date_stop = filter ?P files_searched"
    unfolding find_files_filter using ir by (intro filter_cong) auto
  have bad: "\<not> ?P f" if s: "stem f = p @ ''_202013''" for f p
  proof -
    have "last (split (CHR ''_'') (p @ CHR ''_'' # ''202013'')) = ''202013''"
      by (rule last_split_suffix) simp
    then have t: "?tok f = ''202013''" using s by simp
    have "\<not> valid_yyyymm ''202013''" "\<not> valid_yyyym ''202013''"
      by (simp_all add: valid_yyyymm_def valid_yyyym_def date_of_def int_of_digits_def digit_val_def)
    then show ?thesis unfolding t by simp
  qed
  show ?thesis
    unfolding eq using bad by auto
qed

theorem find_files_accepts_witness:
  "find_files [''Product_descriptions_201707.xlsx'', ''Product_descriptions_202013.xlsx'',
               ''Product_descriptions_201903.xlsx'', ''x_20181.xlsx'', ''notes.txt'']
     (2017, 7) (2019, 2) = [''Product_descriptions_201707.xlsx'', ''x_20181.xlsx'']
   \<and> stem ''Product_descriptions_202013.xlsx'' = ''Product_descriptions'' @ ''_202013''"
proof -
  have e: "find_files [''Product_descriptions_201707.xlsx'', ''Product_descriptions_202013.xlsx'',
               ''Product_descriptions_201903.xlsx'', ''x_20181.xlsx'', ''notes.txt'']
     (2017, 7) (2019, 2) = [''Product_descriptions_201707.xlsx'', ''x_20181.xlsx'']"
    by code_simp
  have s: "stem ''Product_descriptions_202013.xlsx'' = ''Product_descriptions'' @ ''_202013''"
    by code_simp
  from find_files_accepts[of "[''Product_descriptions_201707.xlsx'', ''Product_descriptions_202013.xlsx'',
               ''Product_descriptions_201903.xlsx'', ''x_20181.xlsx'', ''notes.txt'']" "(2017, 7)" "(2019, 2)"]
    e s show ?thesis by blast
qed

section \<open>Columns of a frame, row by row\<close>

lemma is_text_map_of: "is_text c r \<Longrightarrow> map_of r c = Some (Str (text_of c r))"
  by (auto simp: is_text_def text_of_def split: option.splits cell.splits)

lemma get_col_rows:
  "(\<And>r. r \<in> set fr \<Longrightarrow> map_of (g r) c = Some (h r)) \<Longrightarrow> get_col c (map g fr) = Some (map h fr)"
  by (simp add: get_col_def list_all_iff)

lemma get_col_id:
  "(\<And>r. r \<in> set fr \<Longrightarrow> map_of r c = Some (h r)) \<Longrightarrow> get_col c fr = Some (map h fr)"
  using get_col_rows[of fr "\<lambda>r. r" c h] by simp

lemma get_col_length: "get_col c fr = Some vs \<Longrightarrow> length vs = length fr"
  by (auto simp: get_col_def split: if_splits)

lemma map2_same: "map2 F (map g xs) (map h xs) = map (\<lambda>x. F (g x) (h x)) xs"
  by (induction xs) simp_all

lemma map2_nested: "map2 F xs (map2 G xs ys) = map2 (\<lambda>x y. F x (G x y)) xs ys"
proof (induction xs arbitrary: ys)
  case Nil show ?case by simp
next
  case (Cons x xs) then show ?case by (cases ys) simp_all
qed

lemma set_col_rows: "set_col c (map h fr) (map g fr) = map (\<lambda>r. AList.update c (h r) (g r)) fr"
  by (simp add: set_col_def map2_same)

lemma set_col_id: "set_col c (map h fr) fr = map (\<lambda>r. AList.update c (h r) r) fr"
  using set_col_rows[of c h fr "\<lambda>r. r"] by simp

lemma length_set_col: "length (set_col c vs fr) = min (length fr) (length vs)"
  by (simp add: set_col_def)

lemma nth_set_col:
  "length vs = length fr \<Longrightarrow> i < length fr \<Longrightarrow> set_col c vs fr ! i = AList.update c (vs ! i) (fr ! i)"
  by (simp add: set_col_def)

lemma get_col_set_col_same:
  assumes "length vs = length fr"
  shows "get_col c (set_col c vs fr) = Some vs"
proof -
  have l: "length (set_col c vs fr) = length fr" using assms by (simp add: set_col_def)
  have all: "list_all (\<lambda>r. map_of r c \<noteq> None) (set_col c vs fr)"
    unfolding list_all_length using assms l by (simp add: nth_set_col AList.update_conv')
  have "map (\<lambda>r. the (map_of r c)) (set_col c vs fr) = vs"
    by (rule nth_equalityI) (use assms l in \<open>simp_all add: nth_set_col AList.update_conv'\<close>)
  then show ?thesis using all by (simp add: get_col_def)
qed

lemma get_col_set_col_other:
  assumes "length vs = length fr" and "c' \<noteq> c"
  shows "get_col c' (set_col c vs fr) = get_col c' fr"
proof -
  have l: "length (set_col c vs fr) = length fr" using assms by (simp add: set_col_def)
  have all: "list_all (\<lambda>r. map_of r c' \<noteq> None) (set_col c vs fr) = list_all (\<lambda>r. map_of r c' \<noteq> None) fr"
    unfolding list_all_length using assms l by (simp add: nth_set_col AList.update_conv')
  have "map (\<lambda>r. the (map_of r c')) (set_col c vs fr) = map (\<lambda>r. the (map_of r c')) fr"
    by (rule nth_equalityI) (use assms l in \<open>simp_all add: nth_set_col AList.update_conv'\<close>)
  then show ?thesis using all by (simp add: get_col_def)
qed

lemma set_col_twice:
  assumes "length vs = length fr"
  shows "set_col c vs (set_col c vs fr) = set_col c vs fr"
proof (rule nth_equalityI)
  show "length (set_col c vs (set_col c vs fr)) = length (set_col c vs fr)"
    using assms by (simp add: length_set_col)
next
  fix i assume "i < length (set_col c vs (set_col c vs fr))"
  then have i: "i < length fr" using assms by (simp add: length_set_col)
  have l: "length vs = length (set_col c vs fr)" using assms by (simp add: length_set_col)
  have "set_col c vs (set_col c vs fr) ! i = AList.update c (vs ! i) (set_col c vs fr ! i)"
    by (rule nth_set_col[OF l]) (use i assms in \<open>simp add: length_set_col\<close>)
  also have "\<dots> = AList.update c (vs ! i) (AList.update c (vs ! i) (fr ! i))"
    using nth_set_col[OF assms i] by simp
  also have "\<dots> = set_col c vs fr ! i"
    using nth_set_col[OF assms i] by simp
  finally show "set_col c vs (set_col c vs fr) ! i = set_col c vs fr ! i" .
qed

lemma set_col_same:
  assumes "get_col c fr = Some vs"
  shows "set_col c vs fr = fr"
proof -
  have len: "length vs = length fr" using assms by (rule get_col_length)
  have l: "length (set_col c vs fr) = length fr" using len by (simp add: set_col_def)
  have v: "map_of (fr ! i) c = Some (vs ! i)" if "i < length fr" for i
  proof -
    have "map_of (fr ! i) c \<noteq> None"
      using assms that by (auto simp: get_col_def list_all_length split: if_splits)
    moreover have "vs ! i = the (map_of (fr ! i) c)"
      using assms that by (auto simp: get_col_def split: if_splits)
    ultimately show ?thesis by auto
  qed
  show ?thesis
  proof (rule nth_equalityI)
    show "length (set_col c vs fr) = length fr" by (rule l)
  next
    fix i assume "i < length (set_col c vs fr)"
    then have i: "i < length fr" using l by simp
    show "set_col c vs fr ! i = fr ! i"
      using nth_set_col[OF len i] v[OF i] by (simp add: AList.update_triv)
  qed
qed

lemma select_rows_rows: "select_rows (map p fr) (map g fr) = map g (filter p fr)"
  by (induction fr) (simp_all add: select_rows_def)

lemma select_rows_id: "select_rows (map p fr) fr = filter p fr"
  using select_rows_rows[of p fr "\<lambda>r. r"] by simp

lemma add_col_text:
  "add_col (map (\<lambda>r. Str (a r)) fr) (map (\<lambda>r. Str (b r)) fr) = Some (map (\<lambda>r. Str (a r @ b r)) fr)"
  by (induction fr) (simp_all add: add_col_def)

lemma keyable_cols:
  assumes "keyable r"
  shows "map_of r ''shop_code'' = Some (Str (text_of ''shop_code'' r))"
    and "map_of r ''location'' = Some (Str (text_of ''location'' r))"
    and "map_of r ''item_id'' = Some (Str (text_of ''item_id'' r))"
  using assms by (simp_all add: keyable_def is_text_map_of)

section \<open>The steps of the reconciliation, row by row\<close>

lemma count_list_nth_iff:
  assumes "i < length xs"
  shows "2 \<le> count_list xs (xs ! i) \<longleftrightarrow> (\<exists>j < length xs. j \<noteq> i \<and> xs ! j = xs ! i)"
proof -
  let ?x = "xs ! i"
  have split: "xs = take i xs @ ?x # drop (Suc i) xs"
    using assms by (rule id_take_nth_drop)
  have "count_list xs ?x = count_list (take i xs) ?x + 1 + count_list (drop (Suc i) xs) ?x"
    by (subst split) simp
  then have "2 \<le> count_list xs ?x \<longleftrightarrow> ?x \<in> set (take i xs) \<or> ?x \<in> set (drop (Suc i) xs)"
    using count_list_0_iff[of "take i xs" ?x] count_list_0_iff[of "drop (Suc i) xs" ?x] by linarith
  also have "\<dots> \<longleftrightarrow> (\<exists>j < length xs. j \<noteq> i \<and> xs ! j = ?x)"
  proof
    assume "?x \<in> set (take i xs) \<or> ?x \<in> set (drop (Suc i) xs)"
    then show "\<exists>j < length xs. j \<noteq> i \<and> xs ! j = ?x"
    proof
      assume "?x \<in> set (take i xs)"
      then obtain j where "j < length (take i xs)" "take i xs ! j = ?x"
        by (auto simp: in_set_conv_nth)
      then show ?thesis using assms by (intro exI[of _ j]) auto
    next
      assume "?x \<in> set (drop (Suc i) xs)"
      then obtain j where "j < length (drop (Suc i) xs)" "drop (Suc i) xs ! j = ?x"
        by (auto simp: in_set_conv_nth)
      then show ?thesis using assms by (intro exI[of _ "Suc i + j"]) auto
    qed
  next
    assume "\<exists>j < length xs. j \<noteq> i \<and> xs ! j = ?x"
    then obtain j where j: "j < length xs" "j \<noteq> i" "xs ! j = ?x" by blast
    show "?x \<in> set (take i xs) \<or> ?x \<in> set (drop (Suc i) xs)"
    proof (cases "j < i")
      case True
      then have "take i xs ! j = ?x" using j by simp
      then have "?x \<in> set (take i xs)" using True assms
        by (metis length_take min.absorb2 less_imp_le nth_mem)
      then show ?thesis ..
    next
      case False
      then have gt: "i < j" using j by simp
      then have "drop (Suc i) xs ! (j - Suc i) = ?x" using j by simp
      moreover have "j - Suc i < length (drop (Suc i) xs)" using gt j by simp
      ultimately have "?x \<in> set (drop (Suc i) xs)" by (metis nth_mem)
      then show ?thesis ..
    qed
  qed
  finally show ?thesis .
qed

lemma duplicated_count: "duplicated xs = map (\<lambda>x. 2 \<le> count_list xs x) xs"
proof (rule nth_equalityI)
  show "length (duplicated xs) = length (map (\<lambda>x. 2 \<le> count_list xs x) xs)"
    by (simp add: duplicated_def)
next
  fix i assume "i < length (duplicated xs)"
  then have i: "i < length xs" by (simp add: duplicated_def)
  have "duplicated xs ! i \<longleftrightarrow> (\<exists>j < length xs. j \<noteq> i \<and> xs ! j = xs ! i)"
    using i by (auto simp: duplicated_def list_ex_iff)
  then show "duplicated xs ! i = map (\<lambda>x. 2 \<le> count_list xs x) xs ! i"
    using i count_list_nth_iff[OF i] by simp
qed

lemma count_list_map_Str: "count_list (map (\<lambda>r. Str (f r)) xs) (Str y) = count_list (map f xs) y"
  by (induction xs) simp_all

lemma count_list_filter_le: "count_list (map f (filter p xs)) k \<le> count_list (map f xs) k"
  by (induction xs) auto

lemma lookup_last_snoc:
  "lookup_last (ps @ [(s, d)]) x = (if x = s then d else lookup_last ps x)"
  by (simp add: lookup_last_def)

lemma replace_fold:
  "length ys = length xs \<Longrightarrow>
   fold (\<lambda>(s, d) ys. map2 (\<lambda>x y. if x = s then d else y) xs ys) ps ys
   = map2 (\<lambda>x y. case map_of (rev ps) x of Some d \<Rightarrow> d | None \<Rightarrow> y) xs ys"
proof (induction ps arbitrary: ys)
  case Nil
  then show ?case by (simp add: case_prod_unfold map_snd_zip)
next
  case (Cons p ps)
  obtain s d where p: "p = (s, d)" by (cases p)
  have len: "length (map2 (\<lambda>x y. if x = s then d else y) xs ys) = length xs"
    using Cons.prems by simp
  have pt: "(\<lambda>x y. case map_of (rev (p # ps)) x of Some d \<Rightarrow> d | None \<Rightarrow> y)
      = (\<lambda>x y. case map_of (rev ps) x of Some d' \<Rightarrow> d' | None \<Rightarrow> if x = s then d else y)"
    by (auto simp: fun_eq_iff p map_add_def split: option.splits)
  show ?case
    unfolding pt using Cons.IH[OF len]
    by (simp add: p map2_nested)
qed

lemma replace_list_rows: "replace_list src dst xs = map (lookup_last (zip src dst)) xs"
  unfolding replace_list_def
  by (simp add: replace_fold zip_same_conv_map lookup_last_def[abs_def])

lemma lookup_last_absent: "x \<notin> set src \<Longrightarrow> lookup_last (zip src dst) x = x"
proof -
  assume a: "x \<notin> set src"
  have "x \<notin> fst ` set (rev (zip src dst))"
    using a by (auto dest: set_zip_leftD)
  then have "map_of (rev (zip src dst)) x = None"
    by (simp add: map_of_eq_None_iff)
  then show ?thesis by (simp add: lookup_last_def)
qed

lemma backfill_rows:
  "map (\<lambda>(m, old, new). if m then new else old) (zip (map M fr) (zip (map A fr) (map B fr)))
   = map (\<lambda>r. if M r then B r else A r) fr"
  by (induction fr) simp_all

lemma astype_str_idem: "astype_str (astype_str vs) = astype_str vs"
  by (simp add: astype_str_def)

lemma item_key_col_rows:
  assumes "list_all keyable (df self)"
  shows "item_key_col self = Some (map (\<lambda>r. Str (key_of r)) (df self))"
proof -
  have k: "keyable r" if "r \<in> set (df self)" for r
    using assms that by (simp add: list_all_iff)
  have a: "get_col ''shop_code'' (df self) = Some (map (\<lambda>r. Str (text_of ''shop_code'' r)) (df self))"
    by (rule get_col_id) (simp add: k keyable_cols)
  have b: "get_col ''location'' (df self) = Some (map (\<lambda>r. Str (text_of ''location'' r)) (df self))"
    by (rule get_col_id) (simp add: k keyable_cols)
  have c: "get_col ''item_id'' (df self) = Some (map (\<lambda>r. Str (text_of ''item_id'' r)) (df self))"
    by (rule get_col_id) (simp add: k keyable_cols)
  show ?thesis
    unfolding item_key_col_def a b c
    by (simp add: add_col_text key_of_def)
qed

lemma drop_duplicates_rows:
  assumes key: "\<And>r. r \<in> set fr \<Longrightarrow> map_of (g r) (map_from self) = Some (K r)"
    and sc: "\<And>r. r \<in> set fr \<Longrightarrow> map_of (g r) ''shop_code'' = Some (C r)"
    and d: "df self = map g fr"
  shows "drop_duplicates_on_character_len n self
         = Some (self\<lparr>df := map g (filter (\<lambda>r. \<not> (2 \<le> count_list (map K fr) (K r)
                                                 \<and> length (to_str (C r)) = n)) fr)\<rparr>)"
proof -
  have a: "get_col (map_from self) (df self) = Some (map K fr)"
    unfolding d by (rule get_col_rows) (rule key)
  have b: "get_col ''shop_code'' (df self) = Some (map C fr)"
    unfolding d by (rule get_col_rows) (rule sc)
  have m: "map2 (\<lambda>d f. \<not> (d \<and> f)) (duplicated (map K fr)) (map (\<lambda>v. length (to_str v) = n) (map C fr))
           = map (\<lambda>r. \<not> (2 \<le> count_list (map K fr) (K r) \<and> length (to_str (C r)) = n)) fr"
    unfolding duplicated_count map_map by (simp add: map2_same comp_def)
  have "drop_duplicates_on_character_len n self
        = Some (self\<lparr>df := select_rows
             (map2 (\<lambda>d f. \<not> (d \<and> f)) (duplicated (map K fr))
                (map (\<lambda>v. length (to_str v) = n) (map C fr))) (df self)\<rparr>)"
    by (simp only: drop_duplicates_on_character_len_def a b Let_def Option.bind.simps)
  then show ?thesis
    by (simp only: m d select_rows_rows)
qed

lemma cast_columns_rows:
  assumes key: "\<And>r. r \<in> set fr \<Longrightarrow> map_of (g r) col = Some (K r)"
    and d: "df self = map g fr"
    and t: "get_col col (df_transition self) = Some ts"
  shows "cast_columns col self
         = Some (self\<lparr>df := map (\<lambda>r. AList.update col (Str (to_str (K r))) (g r)) fr,
                      df_transition := set_col col (astype_str ts) (df_transition self)\<rparr>)"
proof -
  have a: "get_col col (df self) = Some (map K fr)"
    unfolding d by (rule get_col_rows) (rule key)
  have s: "set_col col (astype_str (map K fr)) (map g fr)
           = map (\<lambda>r. AList.update col (Str (to_str (K r))) (g r)) fr"
    unfolding astype_str_def map_map comp_def by (rule set_col_rows)
  have "cast_columns col self
        = Some (self\<lparr>df := set_col col (astype_str (map K fr)) (df self),
                     df_transition := set_col col (astype_str ts) (df_transition self)\<rparr>)"
    by (simp add: cast_columns_def a t Let_def)
  then show ?thesis by (simp only: d s)
qed

lemma map_shop_codes_rows:
  assumes key: "\<And>r. r \<in> set fr \<Longrightarrow> map_of (g r) mf = Some (K r)"
    and d: "df self = map g fr"
    and src: "get_col mf (df_transition self) = Some src"
    and dst: "get_col mt (df_transition self) = Some dst"
  shows "map_shop_codes mf mt self
         = Some (self\<lparr>df := map (\<lambda>r. AList.update new_col_name (lookup_last (zip src dst) (K r)) (g r)) fr\<rparr>)"
proof -
  let ?df1 = "map (\<lambda>r. AList.update new_col_name (K r) (g r)) fr"
  have a: "get_col mf (df self) = Some (map K fr)"
    unfolding d by (rule get_col_rows) (rule key)
  have s1: "set_col new_col_name (map K fr) (df self) = ?df1"
    unfolding d by (rule set_col_rows)
  have b: "get_col new_col_name ?df1 = Some (map K fr)"
    by (rule get_col_rows) (simp add: AList.update_conv')
  have s2: "set_col new_col_name (replace_list src dst (map K fr)) ?df1
            = map (\<lambda>r. AList.update new_col_name (lookup_last (zip src dst) (K r)) (g r)) fr"
    unfolding replace_list_rows map_map comp_def
    by (simp add: set_col_rows)
  have "map_shop_codes mf mt self
        = Some (self\<lparr>df := set_col new_col_name (replace_list src dst (map K fr)) ?df1\<rparr>)"
    by (simp add: map_shop_codes_def a s1 b src dst Let_def)
  then show ?thesis by (simp only: s2)
qed

lemma backfill_unmatched_values_rows:
  assumes new: "\<And>r. r \<in> set fr \<Longrightarrow> map_of (g r) new_col_name = Some (A r)"
    and key: "\<And>r. r \<in> set fr \<Longrightarrow> map_of (g r) (map_from self) = Some (K r)"
    and fill: "\<And>r. r \<in> set fr \<Longrightarrow> map_of (g r) f = Some (F r)"
    and d: "df self = map g fr"
  shows "backfill_unmatched_values f self
         = Some (self\<lparr>df := map (\<lambda>r. AList.update new_col_name
                                      (if A r \<in> set (map K fr) then F r else A r) (g r)) fr\<rparr>)"
proof -
  have a: "get_col new_col_name (df self) = Some (map A fr)"
    unfolding d by (rule get_col_rows) (rule new)
  have b: "get_col (map_from self) (df self) = Some (map K fr)"
    unfolding d by (rule get_col_rows) (rule key)
  have c: "get_col f (df self) = Some (map F fr)"
    unfolding d by (rule get_col_rows) (rule fill)
  have v: "map (\<lambda>(m, old, new). if m then new else old)
             (zip (map (\<lambda>v. v \<in> set (map K fr)) (map A fr)) (zip (map A fr) (map F fr)))
           = map (\<lambda>r. if A r \<in> set (map K fr) then F r else A r) fr"
    unfolding map_map comp_def by (rule backfill_rows)
  have "backfill_unmatched_values f self
        = Some (self\<lparr>df := set_col new_col_name
             (map (\<lambda>(m, old, new). if m then new else old)
                (zip (map (\<lambda>v. v \<in> set (map K fr)) (map A fr)) (zip (map A fr) (map F fr))))
             (df self)\<rparr>)"
    by (simp only: backfill_unmatched_values_def a b c Let_def Option.bind.simps)
  then show ?thesis by (simp only: v d set_col_rows)
qed

lemma drop_column_rows:
  assumes "\<And>r. r \<in> set fr \<Longrightarrow> map_of (g r) c = Some (K r)"
  shows "drop_column c (map g fr) = Some (map (\<lambda>r. AList.delete c (g r)) fr)"
  using assms by (simp add: drop_column_def list_all_iff)

lemma run_shop_code_transition_rows:
  assumes k: "list_all keyable fr"
    and ks: "get_col ''KEY'' tt = Some ks"
    and vs: "get_col ''Shop Code'' tt = Some vs"
  shows "run_shop_code_transition
           \<lparr>df = fr, df_transition = tt, map_from = ''KEY'', map_to = ''Shop Code''\<rparr>
         = Some \<lparr>df = map (reconciled (survivors fr) (zip (astype_str ks) vs)) (survivors fr),
                 df_transition = set_col ''KEY'' (astype_str ks) tt,
                 map_from = ''KEY'', map_to = ''Shop Code''\<rparr>"
proof -
  let ?S = "survivors fr"
  let ?tt = "set_col ''KEY'' (astype_str ks) tt"
  let ?P = "zip (astype_str ks) vs"
  let ?m = "\<lambda>r. lookup_last ?P (Str (key_of r))"
  have kf: "keyable r" if "r \<in> set fr" for r using k that by (simp add: list_all_iff)
  have kS: "keyable r" if "r \<in> set ?S" for r using that kf by (simp add: survivors_def)
  have len: "length (astype_str ks) = length tt"
    using get_col_length[OF ks] by (simp add: astype_str_def)
  have src: "get_col ''KEY'' ?tt = Some (astype_str ks)"
    by (rule get_col_set_col_same[OF len])
  have dst: "get_col ''Shop Code'' ?tt = Some vs"
    using get_col_set_col_other[OF len, of "''Shop Code''" "''KEY''"] vs by simp
  have A: "item_key_col \<lparr>df = fr, df_transition = tt, map_from = ''KEY'', map_to = ''Shop Code''\<rparr>
           = Some (map (\<lambda>r. Str (key_of r)) fr)"
    using item_key_col_rows[of "\<lparr>df = fr, df_transition = tt, map_from = ''KEY'', map_to = ''Shop Code''\<rparr>"] k
    by simp
  have A': "set_col ''KEY'' (map (\<lambda>r. Str (key_of r)) fr) fr = map with_key fr"
    unfolding with_key_def by (rule set_col_id)
  have B: "drop_duplicates_on_character_len 4
             \<lparr>df = map with_key fr, df_transition = tt, map_from = ''KEY'', map_to = ''Shop Code''\<rparr>
           = Some \<lparr>df = map with_key ?S, df_transition = tt, map_from = ''KEY'', map_to = ''Shop Code''\<rparr>"
    using drop_duplicates_rows[of fr with_key
        "\<lparr>df = map with_key fr, df_transition = tt, map_from = ''KEY'', map_to = ''Shop Code''\<rparr>"
        "\<lambda>r. Str (key_of r)" "\<lambda>r. Str (text_of ''shop_code'' r)" 4]
    by (simp add: with_key_def AList.update_conv' kf keyable_cols count_list_map_Str
          survivors_def suppressed_def)
  have C: "cast_columns ''KEY''
             \<lparr>df = map with_key ?S, df_transition = tt, map_from = ''KEY'', map_to = ''Shop Code''\<rparr>
           = Some \<lparr>df = map with_key ?S, df_transition = ?tt, map_from = ''KEY'', map_to = ''Shop Code''\<rparr>"
    using cast_columns_rows[of ?S with_key "''KEY''" "\<lambda>r. Str (key_of r)"
        "\<lparr>df = map with_key ?S, df_transition = tt, map_from = ''KEY'', map_to = ''Shop Code''\<rparr>" ks]
    by (simp add: with_key_def AList.update_conv' ks)
  have D: "map_shop_codes ''KEY'' ''Shop Code''
             \<lparr>df = map with_key ?S, df_transition = ?tt, map_from = ''KEY'', map_to = ''Shop Code''\<rparr>
           = Some \<lparr>df = map (\<lambda>r. AList.update ''actual shop'' (?m r) (with_key r)) ?S,
                   df_transition = ?tt, map_from = ''KEY'', map_to = ''Shop Code''\<rparr>"
    using map_shop_codes_rows[of ?S with_key "''KEY''" "\<lambda>r. Str (key_of r)"
        "\<lparr>df = map with_key ?S, df_transition = ?tt, map_from = ''KEY'', map_to = ''Shop Code''\<rparr>"
        "astype_str ks" "''Shop Code''" vs]
    by (simp add: with_key_def AList.update_conv' src dst new_col_name_def)
  have E: "backfill_unmatched_values ''shop_code''
             \<lparr>df = map (\<lambda>r. AList.update ''actual shop'' (?m r) (with_key r)) ?S,
              df_transition = ?tt, map_from = ''KEY'', map_to = ''Shop Code''\<rparr>
           = Some \<lparr>df = map (\<lambda>r. AList.update ''actual shop'' (actual_shop ?S ?P r) (with_key r)) ?S,
                   df_transition = ?tt, map_from = ''KEY'', map_to = ''Shop Code''\<rparr>"
    using backfill_unmatched_values_rows[of ?S "\<lambda>r. AList.update ''actual shop'' (?m r) (with_key r)"
        ?m "\<lparr>df = map (\<lambda>r. AList.update ''actual shop'' (?m r) (with_key r)) ?S,
              df_transition = ?tt, map_from = ''KEY'', map_to = ''Shop Code''\<rparr>"
        "\<lambda>r. Str (key_of r)" "''shop_code''" "\<lambda>r. Str (text_of ''shop_code'' r)"]
    by (simp add: with_key_def AList.update_conv' kS keyable_cols new_col_name_def actual_shop_def Let_def)
  have F: "drop_column ''KEY'' (map (\<lambda>r. AList.update ''actual shop'' (actual_shop ?S ?P r) (with_key r)) ?S)
           = Some (map (reconciled ?S ?P) ?S)"
    using drop_column_rows[of ?S "\<lambda>r. AList.update ''actual shop'' (actual_shop ?S ?P r) (with_key r)"
        "''KEY''" "\<lambda>r. Str (key_of r)"]
    by (simp add: with_key_def AList.update_conv' reconciled_def[abs_def])
  show ?thesis
    unfolding run_shop_code_transition_def
    by (simp add: A A' B C D E F Let_def)
qed

lemma text_of_reconciled:
  "c \<noteq> ''KEY'' \<Longrightarrow> c \<noteq> ''actual shop'' \<Longrightarrow> text_of c (reconciled S P r) = text_of c r"
  by (simp add: text_of_def reconciled_def with_key_def AList.delete_conv' AList.update_conv')

lemma key_of_reconciled: "key_of (reconciled S P r) = key_of r"
  by (simp add: key_of_def text_of_reconciled)

lemma keyable_reconciled: "keyable (reconciled S P r) = keyable r"
  by (simp add: keyable_def is_text_def reconciled_def with_key_def AList.delete_conv' AList.update_conv')

lemma actual_reconciled: "map_of (reconciled S P r) ''actual shop'' = Some (actual_shop S P r)"
  by (simp add: reconciled_def with_key_def AList.delete_conv' AList.update_conv')

lemma keyable_parse_record: "keyable (parse_record s)"
  by (simp add: keyable_def is_text_def parse_record_def column_to_str_index_mapping_def)

lemma keyable_parse_df: "list_all keyable (parse_df raw)"
  by (simp add: parse_df_rows list_all_iff keyable_parse_record)

lemma reconciled_parse_record:
  "reconciled S P (parse_record s) = parse_record s @ [(''actual shop'', actual_shop S P (parse_record s))]"
  by (simp add: reconciled_def with_key_def parse_record_def column_to_str_index_mapping_def)

lemma run_rows:
  assumes "get_col ''KEY'' tt = Some ks" and "get_col ''Shop Code'' tt = Some vs"
  shows "run raw tt
         = Some \<lparr>df = map (reconciled (survivors (parse_df raw)) (zip (astype_str ks) vs))
                        (survivors (parse_df raw)),
                 df_transition = set_col ''KEY'' (astype_str ks) tt,
                 map_from = ''KEY'', map_to = ''Shop Code''\<rparr>"
  unfolding run_def by (rule run_shop_code_transition_rows[OF keyable_parse_df assms])

lemma survivors_reconciled:
  "survivors (map (reconciled S' P) (survivors fr)) = map (reconciled S' P) (survivors fr)"
proof -
  let ?S = "survivors fr"
  have keys: "map key_of (map (reconciled S' P) ?S) = map key_of ?S"
    by (simp add: key_of_reconciled)
  have "\<not> suppressed (map (reconciled S' P) ?S) (reconciled S' P r)" if "r \<in> set ?S" for r
  proof -
    have n: "\<not> suppressed fr r" using that by (simp add: survivors_def)
    have "count_list (map key_of ?S) (key_of r) \<le> count_list (map key_of fr) (key_of r)"
      unfolding survivors_def by (rule count_list_filter_le)
    then show ?thesis
      using n unfolding suppressed_def keys
      by (auto simp: key_of_reconciled text_of_reconciled)
  qed
  then show ?thesis
    by (subst survivors_def) (auto simp: filter_id_conv)
qed

lemma actual_shop_reconciled:
  "actual_shop (map (reconciled S' P') S) P (reconciled S' P' r) = actual_shop S P r"
  by (simp add: actual_shop_def Let_def key_of_reconciled text_of_reconciled comp_def)

lemma reconciled_fixed:
  assumes "map_of r ''actual shop'' = Some (actual_shop S P r)" and "''KEY'' \<notin> fst ` set r"
  shows "reconciled S P r = r"
proof -
  have "map_of (with_key r) ''actual shop'' = Some (actual_shop S P r)"
    using assms(1) by (simp add: with_key_def AList.update_conv')
  then have "AList.update ''actual shop'' (actual_shop S P r) (with_key r) = with_key r"
    by (rule AList.update_triv)
  then show ?thesis
    using assms(2) by (simp add: reconciled_def with_key_def AList.delete_update_same)
qed

lemma reconciled_twice:
  "reconciled (map (reconciled S P) S) P (reconciled S P r) = reconciled S P r"
proof (rule reconciled_fixed)
  show "map_of (reconciled S P r) ''actual shop''
        = Some (actual_shop (map (reconciled S P) S) P (reconciled S P r))"
    by (simp add: actual_shop_reconciled actual_reconciled)
  show "''KEY'' \<notin> fst ` set (reconciled S P r)"
    unfolding reconciled_def by (rule AList.delete_notin_dom)
qed

section \<open>Properties of the reconciliation\<close>

text \<open>
  Claim C3. On a table whose key columns hold strings, the key column that
  \<open>run_shop_code_transition\<close> assigns is the composite key of every row, and
  \<open>_drop_duplicates_on_character_len\<close> then keeps, in their order, exactly the rows
  for which it is not the case that the composite key stands at least twice in the
  table and the shop code has exactly four characters. So every occurrence of such a
  row goes, and a row with a repeated key and a shop code of another length stays, as
  does every row with a key of its own.
\<close>

theorem drop_duplicates_on_character_len_iff:
  assumes "list_all keyable (df self)" and "map_from self = ''KEY''"
  shows "item_key_col self = Some (map (\<lambda>r. Str (key_of r)) (df self))
     \<and> drop_duplicates_on_character_len 4
          (self\<lparr>df := set_col (map_from self) (map (\<lambda>r. Str (key_of r)) (df self)) (df self)\<rparr>)
        = Some (self\<lparr>df := map (\<lambda>r. AList.update ''KEY'' (Str (key_of r)) r)
                  (filter (\<lambda>r. \<not> (2 \<le> count_list (map key_of (df self)) (key_of r)
                                    \<and> length (text_of ''shop_code'' r) = 4)) (df self))\<rparr>)"
proof -
  let ?fr = "df self"
  let ?self1 = "self\<lparr>df := map with_key ?fr\<rparr>"
  have kf: "keyable r" if "r \<in> set ?fr" for r using assms(1) that by (simp add: list_all_iff)
  have s: "set_col (map_from self) (map (\<lambda>r. Str (key_of r)) ?fr) ?fr = map with_key ?fr"
    unfolding with_key_def assms(2) by (rule set_col_id)
  have "drop_duplicates_on_character_len 4 ?self1
        = Some (?self1\<lparr>df := map with_key
             (filter (\<lambda>r. \<not> (2 \<le> count_list (map (\<lambda>r. Str (key_of r)) ?fr) (Str (key_of r))
                               \<and> length (to_str (Str (text_of ''shop_code'' r))) = 4)) ?fr)\<rparr>)"
    by (rule drop_duplicates_rows)
       (simp_all add: assms(2) with_key_def AList.update_conv' kf keyable_cols)
  then show ?thesis
    unfolding s using item_key_col_rows[OF assms(1)]
    by (simp add: count_list_map_Str with_key_def[abs_def])
qed

theorem drop_duplicates_on_character_len_iff_witness:
  "list_all keyable (df \<lparr>df = parse_df [''2017010000010001 ZZZZ'', ''201701      1005 A12X'',
                                         ''2017010000010001 ZZZZ''],
                          df_transition = [], map_from = ''KEY'', map_to = ''Shop Code''\<rparr>)
   \<and> map_from \<lparr>df = parse_df [''2017010000010001 ZZZZ'', ''201701      1005 A12X'',
                               ''2017010000010001 ZZZZ''],
                df_transition = [], map_from = ''KEY'', map_to = ''Shop Code''\<rparr> = ''KEY''
   \<and> map_option df (drop_duplicates_on_character_len 4
        \<lparr>df = set_col ''KEY'' [Str ''ZZZZ0001000001'', Str ''A12X1005'', Str ''ZZZZ0001000001'']
                (parse_df [''2017010000010001 ZZZZ'', ''201701      1005 A12X'',
                           ''2017010000010001 ZZZZ'']),
         df_transition = [], map_from = ''KEY'', map_to = ''Shop Code''\<rparr>)
     = Some [[(''quote_date'', Str ''201701''), (''item_id'', Str []),
              (''location'', Str ''1005''), (''shop_code'', Str ''A12X''),
              (''prod_size'', Str []), (''prod_measure_id'', Str []),
              (''attribute2'', Str []), (''attribute3'', Str []),
              (''attribute4'', Str []), (''attribute5'', Str []),
              (''attribute6'', Str []), (''KEY'', Str ''A12X1005'')]]"
proof -
  let ?R = "[''2017010000010001 ZZZZ'', ''201701      1005 A12X'', ''2017010000010001 ZZZZ'']"
  let ?self = "\<lparr>df = parse_df ?R, df_transition = [], map_from = ''KEY'', map_to = ''Shop Code''\<rparr>"
  have h1: "list_all keyable (df ?self)" by code_simp
  have h2: "map_from ?self = ''KEY''" by simp
  have e: "map_option df (drop_duplicates_on_character_len 4
        \<lparr>df = set_col ''KEY'' [Str ''ZZZZ0001000001'', Str ''A12X1005'', Str ''ZZZZ0001000001'']
                (parse_df ?R),
         df_transition = [], map_from = ''KEY'', map_to = ''Shop Code''\<rparr>)
     = Some [[(''quote_date'', Str ''201701''), (''item_id'', Str []),
              (''location'', Str ''1005''), (''shop_code'', Str ''A12X''),
              (''prod_size'', Str []), (''prod_measure_id'', Str []),
              (''attribute2'', Str []), (''attribute3'', Str []),
              (''attribute4'', Str []), (''attribute5'', Str []),
              (''attribute6'', Str []), (''KEY'', Str ''A12X1005'')]]"
    by code_simp
  from drop_duplicates_on_character_len_iff[OF h1 h2] h1 h2 e
  show ?thesis by blast
qed

text \<open>
  Claim C1, as stated, fails on a row with empty location and item id: its composite
  key is its shop code, no entry of the transition table matches it, and the row ends
  with that very key, \<open>ZZZZ\<close>, as its \<open>actual shop\<close>.
\<close>

theorem run_fallback_counterexample:
  "run [''201701           ZZZZ'']
       [[(''KEY'', Str ''A12X1005''), (''Shop Code'', Str ''007'')]]
   = Some \<lparr>df = [[(''quote_date'', Str ''201701''), (''item_id'', Str []),
                  (''location'', Str []), (''shop_code'', Str ''ZZZZ''),
                  (''prod_size'', Str []), (''prod_measure_id'', Str []),
                  (''attribute2'', Str []), (''attribute3'', Str []),
                  (''attribute4'', Str []), (''attribute5'', Str []),
                  (''attribute6'', Str []), (''actual shop'', Str ''ZZZZ'')]],
           df_transition = [[(''KEY'', Str ''A12X1005''), (''Shop Code'', Str ''007'')]],
           map_from = ''KEY'', map_to = ''Shop Code''\<rparr>
   \<and> key_of [(''quote_date'', Str ''201701''), (''item_id'', Str []),
              (''location'', Str []), (''shop_code'', Str ''ZZZZ''),
              (''prod_size'', Str []), (''prod_measure_id'', Str []),
              (''attribute2'', Str []), (''attribute3'', Str []),
              (''attribute4'', Str []), (''attribute5'', Str []),
              (''attribute6'', Str []), (''actual shop'', Str ''ZZZZ'')] = ''ZZZZ''
   \<and> Str ''ZZZZ'' \<noteq> Str ''A12X1005''"
  by code_simp

text \<open>
  Claim C1, amended. With a transition table that has the columns \<open>KEY\<close> and
  \<open>Shop Code\<close>, the reconciliation of a parsed sheet returns, and for every row
  it returns: when the composite key of the row is not the text of any entry of the
  table's \<open>KEY\<close> column, the \<open>actual shop\<close> of the row is its own shop code; and
  whenever the \<open>actual shop\<close> of the row equals the composite key of some returned
  row, it is the row's own shop code.
\<close>

theorem run_fallback:
  assumes "get_col ''KEY'' transition = Some keys"
    and "get_col ''Shop Code'' transition = Some codes"
  shows "\<exists>self'. run raw_str transition = Some self'
     \<and> (\<forall>r \<in> set (df self').
          (key_of r \<notin> set (map to_str keys) \<longrightarrow>
             map_of r ''actual shop'' = Some (Str (text_of ''shop_code'' r)))
        \<and> (\<forall>r' \<in> set (df self').
             map_of r ''actual shop'' = Some (Str (key_of r')) \<longrightarrow>
             map_of r ''actual shop'' = Some (Str (text_of ''shop_code'' r))))"
proof -
  let ?S = "survivors (parse_df raw_str)"
  let ?P = "zip (astype_str keys) codes"
  have 1: "actual_shop ?S ?P r = Str (text_of ''shop_code'' r)"
    if "r \<in> set ?S" and "key_of r \<notin> set (map to_str keys)" for r
  proof -
    have "Str (key_of r) \<notin> set (astype_str keys)"
      using that(2) by (auto simp: astype_str_def)
    then have "lookup_last ?P (Str (key_of r)) = Str (key_of r)"
      by (rule lookup_last_absent)
    then show ?thesis using that(1) by (simp add: actual_shop_def)
  qed
  have 2: "actual_shop ?S ?P r = Str (text_of ''shop_code'' r)"
    if "r' \<in> set ?S" and "actual_shop ?S ?P r = Str (key_of r')" for r r'
    using that by (auto simp: actual_shop_def Let_def split: if_splits)
  show ?thesis
    unfolding run_rows[OF assms]
    using 1 2 by (auto simp: key_of_reconciled actual_reconciled text_of_reconciled)
qed

theorem run_fallback_witness:
  "get_col ''KEY'' [[(''KEY'', Str ''A12X1005''), (''Shop Code'', Str ''007'')]] = Some [Str ''A12X1005'']
   \<and> get_col ''Shop Code'' [[(''KEY'', Str ''A12X1005''), (''Shop Code'', Str ''007'')]] = Some [Str ''007'']
   \<and> run [''2017019     0001 ZZZZ''] [[(''KEY'', Str ''A12X1005''), (''Shop Code'', Str ''007'')]]
       = Some \<lparr>df = [[(''quote_date'', Str ''201701''), (''item_id'', Str ''9''),
                  (''location'', Str ''0001''), (''shop_code'', Str ''ZZZZ''),
                  (''prod_size'', Str []), (''prod_measure_id'', Str []),
                  (''attribute2'', Str []), (''attribute3'', Str []),
                  (''attribute4'', Str []), (''attribute5'', Str []),
                  (''attribute6'', Str []), (''actual shop'', Str ''ZZZZ'')]],
           df_transition = [[(''KEY'', Str ''A12X1005''), (''Shop Code'', Str ''007'')]],
           map_from = ''KEY'', map_to = ''Shop Code''\<rparr>"
proof -
  let ?T = "[[(''KEY'', Str ''A12X1005''), (''Shop Code'', Str ''007'')]]"
  have h1: "get_col ''KEY'' ?T = Some [Str ''A12X1005'']" by code_simp
  have h2: "get_col ''Shop Code'' ?T = Some [Str ''007'']" by code_simp
  have e: "run [''2017019     0001 ZZZZ''] ?T
       = Some \<lparr>df = [[(''quote_date'', Str ''201701''), (''item_id'', Str ''9''),
                  (''location'', Str ''0001''), (''shop_code'', Str ''ZZZZ''),
                  (''prod_size'', Str []), (''prod_measure_id'', Str []),
                  (''attribute2'', Str []), (''attribute3'', Str []),
                  (''attribute4'', Str []), (''attribute5'', Str []),
                  (''attribute6'', Str []), (''actual shop'', Str ''ZZZZ'')]],
           df_transition = ?T, map_from = ''KEY'', map_to = ''Shop Code''\<rparr>"
    by code_simp
  from run_fallback[OF h1 h2, of "[''2017019     0001 ZZZZ'']"] h1 h2 e
  show ?thesis by blast
qed

text \<open>
  Claim C2. The first of the two rows below has the composite key \<open>A12X1005\<close>, which
  the transition table pairs with the shop code \<open>007\<close>; \<open>007\<close> is also the composite
  key of the second row, so \<open>_backfill_unmatched_values\<close> takes the mapped value for
  an unmatched one, and the first row ends with \<open>A12X\<close>.
\<close>

theorem run_collision:
  "run [''201701      1005 A12X'', ''201701           007'']
       [[(''KEY'', Str ''A12X1005''), (''Shop Code'', Str ''007'')]]
   = Some \<lparr>df = [[(''quote_date'', Str ''201701''), (''item_id'', Str []),
                  (''location'', Str ''1005''), (''shop_code'', Str ''A12X''),
                  (''prod_size'', Str []), (''prod_measure_id'', Str []),
                  (''attribute2'', Str []), (''attribute3'', Str []),
                  (''attribute4'', Str []), (''attribute5'', Str []),
                  (''attribute6'', Str []), (''actual shop'', Str ''A12X'')],
                 [(''quote_date'', Str ''201701''), (''item_id'', Str []),
                  (''location'', Str []), (''shop_code'', Str ''007''),
                  (''prod_size'', Str []), (''prod_measure_id'', Str []),
                  (''attribute2'', Str []), (''attribute3'', Str []),
                  (''attribute4'', Str []), (''attribute5'', Str []),
                  (''attribute6'', Str []), (''actual shop'', Str ''007'')]],
           df_transition = [[(''KEY'', Str ''A12X1005''), (''Shop Code'', Str ''007'')]],
           map_from = ''KEY'', map_to = ''Shop Code''\<rparr>"
  by code_simp

text \<open>
  Claim C7. The reconciliation of a parsed sheet returns a table whose rows, the last
  column taken away, are the rows of the parsed sheet that are not suppressed, in the
  order of the sheet and with every value as it was; each returned row has the eleven
  columns of the offset table followed by \<open>actual shop\<close>, and no column \<open>KEY\<close>.
\<close>

theorem run_frame:
  assumes "get_col ''KEY'' transition = Some keys"
    and "get_col ''Shop Code'' transition = Some codes"
  shows "\<exists>self'. run raw_str transition = Some self'
     \<and> map butlast (df self')
         = filter (\<lambda>r. \<not> (2 \<le> count_list (map key_of (parse_df raw_str)) (key_of r)
                           \<and> length (text_of ''shop_code'' r) = 4)) (parse_df raw_str)
     \<and> (\<forall>r \<in> set (df self').
           map fst r = map fst column_to_str_index_mapping @ [''actual shop'']
           \<and> map_of r ''KEY'' = None)"
proof -
  let ?S = "survivors (parse_df raw_str)"
  let ?P = "zip (astype_str keys) codes"
  have pr: "\<exists>s. r = parse_record s" if "r \<in> set ?S" for r
    using that by (auto simp: survivors_def parse_df_rows)
  have b: "butlast (reconciled ?S ?P r) = r" if "r \<in> set ?S" for r
    using pr[OF that] by (auto simp: reconciled_parse_record)
  have "map butlast (map (reconciled ?S ?P) ?S) = ?S"
    unfolding map_map by (rule map_idI) (simp add: b)
  moreover have "map fst (reconciled ?S ?P r) = map fst column_to_str_index_mapping @ [''actual shop'']
      \<and> map_of (reconciled ?S ?P r) ''KEY'' = None" if "r \<in> set ?S" for r
    using pr[OF that]
    by (auto simp: reconciled_parse_record fst_parse_record)
       (simp add: parse_record_def column_to_str_index_mapping_def)
  ultimately show ?thesis
    unfolding run_rows[OF assms]
    by (simp add: survivors_def suppressed_def)
qed

theorem run_frame_witness:
  "get_col ''KEY'' [[(''KEY'', Str ''A12X1005''), (''Shop Code'', Str ''007'')]] = Some [Str ''A12X1005'']
   \<and> get_col ''Shop Code'' [[(''KEY'', Str ''A12X1005''), (''Shop Code'', Str ''007'')]] = Some [Str ''007'']
   \<and> map_option df (run [''2017010000010001 ZZZZ'', ''201701      1005 A12X'', ''2017010000010001 ZZZZ'']
                        [[(''KEY'', Str ''A12X1005''), (''Shop Code'', Str ''007'')]])
       = Some [[(''quote_date'', Str ''201701''), (''item_id'', Str []),
                (''location'', Str ''1005''), (''shop_code'', Str ''A12X''),
                (''prod_size'', Str []), (''prod_measure_id'', Str []),
                (''attribute2'', Str []), (''attribute3'', Str []),
                (''attribute4'', Str []), (''attribute5'', Str []),
                (''attribute6'', Str []), (''actual shop'', Str ''007'')]]"
proof -
  let ?T = "[[(''KEY'', Str ''A12X1005''), (''Shop Code'', Str ''007'')]]"
  let ?R = "[''2017010000010001 ZZZZ'', ''201701      1005 A12X'', ''2017010000010001 ZZZZ'']"
  have h1: "get_col ''KEY'' ?T = Some [Str ''A12X1005'']" by code_simp
  have h2: "get_col ''Shop Code'' ?T = Some [Str ''007'']" by code_simp
  have e: "map_option df (run ?R ?T)
       = Some [[(''quote_date'', Str ''201701''), (''item_id'', Str []),
                (''location'', Str ''1005''), (''shop_code'', Str ''A12X''),
                (''prod_size'', Str []), (''prod_measure_id'', Str []),
                (''attribute2'', Str []), (''attribute3'', Str []),
                (''attribute4'', Str []), (''attribute5'', Str []),
                (''attribute6'', Str []), (''actual shop'', Str ''007'')]]"
    by code_simp
  from run_frame[OF h1 h2, of ?R] h1 h2 e
  show ?thesis by blast
qed

text \<open>
  Claim C6. Running \<open>run_shop_code_transition\<close> again on what a first run returned
  (the key column is gone from it) succeeds and changes nothing: the column
  \<open>actual shop\<close> holds the same values, and so does the whole state.
\<close>

theorem run_twice:
  assumes "get_col ''KEY'' transition = Some keys"
    and "get_col ''Shop Code'' transition = Some codes"
  shows "\<exists>self' self''. run raw_str transition = Some self'
     \<and> run_shop_code_transition self' = Some self''
     \<and> get_col ''actual shop'' (df self'') = get_col ''actual shop'' (df self')
     \<and> self'' = self'"
proof -
  let ?S = "survivors (parse_df raw_str)"
  let ?P = "zip (astype_str keys) codes"
  let ?fr = "map (reconciled ?S ?P) ?S"
  let ?tt = "set_col ''KEY'' (astype_str keys) transition"
  have len: "length (astype_str keys) = length transition"
    using get_col_length[OF assms(1)] by (simp add: astype_str_def)
  have k: "list_all keyable ?fr"
    using keyable_parse_df[of raw_str]
    by (auto simp: list_all_iff keyable_reconciled survivors_def)
  have src: "get_col ''KEY'' ?tt = Some (astype_str keys)"
    by (rule get_col_set_col_same[OF len])
  have dst: "get_col ''Shop Code'' ?tt = Some codes"
    using get_col_set_col_other[OF len, of "''Shop Code''" "''KEY''"] assms(2) by simp
  have rows: "map (reconciled ?fr ?P) ?fr = ?fr"
    unfolding map_map comp_def reconciled_twice ..
  have "run_shop_code_transition
          \<lparr>df = ?fr, df_transition = ?tt, map_from = ''KEY'', map_to = ''Shop Code''\<rparr>
        = Some \<lparr>df = ?fr, df_transition = ?tt, map_from = ''KEY'', map_to = ''Shop Code''\<rparr>"
    unfolding run_shop_code_transition_rows[OF k src dst]
    by (simp only: survivors_reconciled astype_str_idem rows set_col_twice[OF len])
  then show ?thesis
    unfolding run_rows[OF assms] by simp
qed

theorem run_twice_witness:
  "get_col ''KEY'' [[(''KEY'', Num 7), (''Shop Code'', Str ''007'')]] = Some [Num 7]
   \<and> get_col ''Shop Code'' [[(''KEY'', Num 7), (''Shop Code'', Str ''007'')]] = Some [Str ''007'']
   \<and> Option.bind (run [''201701           7'', ''2017019     0001 ZZZZ'']
                      [[(''KEY'', Num 7), (''Shop Code'', Str ''007'')]]) run_shop_code_transition
       = run [''201701           7'', ''2017019     0001 ZZZZ'']
             [[(''KEY'', Num 7), (''Shop Code'', Str ''007'')]]"
proof -
  let ?T = "[[(''KEY'', Num 7), (''Shop Code'', Str ''007'')]]"
  let ?R = "[''201701           7'', ''2017019     0001 ZZZZ'']"
  have h1: "get_col ''KEY'' ?T = Some [Num 7]" by code_simp
  have h2: "get_col ''Shop Code'' ?T = Some [Str ''007'']" by code_simp
  from run_twice[OF h1 h2, of ?R] obtain self' where
    "run ?R ?T = Some self'" "run_shop_code_transition self' = Some self'" by blast
  then have "Option.bind (run ?R ?T) run_shop_code_transition = run ?R ?T" by simp
  with h1 h2 show ?thesis by blast
qed

text \<open>
  Claim C8, as stated, fails when the \<open>KEY\<close> column of the transition table holds a
  number: \<open>_cast_columns\<close> assigns the column anew on the table it was given, and
  the number 7 is the string \<open>7\<close> afterwards.
\<close>

theorem run_transition_table_counterexample:
  "run [''201701      1005 A12X'']
       [[(''KEY'', Num 7), (''Shop Code'', Str ''007'')]]
   = Some \<lparr>df = [[(''quote_date'', Str ''201701''), (''item_id'', Str []),
                  (''location'', Str ''1005''), (''shop_code'', Str ''A12X''),
                  (''prod_size'', Str []), (''prod_measure_id'', Str []),
                  (''attribute2'', Str []), (''attribute3'', Str []),
                  (''attribute4'', Str []), (''attribute5'', Str []),
                  (''attribute6'', Str []), (''actual shop'', Str ''A12X'')]],
           df_transition = [[(''KEY'', Str ''7''), (''Shop Code'', Str ''007'')]],
           map_from = ''KEY'', map_to = ''Shop Code''\<rparr>
   \<and> get_col ''KEY'' [[(''KEY'', Str ''7''), (''Shop Code'', Str ''007'')]]
       \<noteq> get_col ''KEY'' [[(''KEY'', Num 7), (''Shop Code'', Str ''007'')]]"
  by code_simp

text \<open>
  Claim C8, amended. A reconciliation leaves every column of the transition table other
  than \<open>KEY\<close> as it was, \<open>Shop Code\<close> among them, and replaces the \<open>KEY\<close>
  column by the texts of its values; the table is unchanged exactly when this cast
  changes no value, as when the values were strings already.
\<close>

theorem run_transition_table:
  assumes "get_col ''KEY'' transition = Some keys"
    and "get_col ''Shop Code'' transition = Some codes"
  shows "\<exists>self'. run raw_str transition = Some self'
     \<and> get_col ''Shop Code'' (df_transition self') = Some codes
     \<and> get_col ''KEY'' (df_transition self') = Some (astype_str keys)
     \<and> (\<forall>c. c \<noteq> ''KEY'' \<longrightarrow> get_col c (df_transition self') = get_col c transition)
     \<and> (df_transition self' = transition \<longleftrightarrow> astype_str keys = keys)"
proof -
  let ?tt = "set_col ''KEY'' (astype_str keys) transition"
  have len: "length (astype_str keys) = length transition"
    using get_col_length[OF assms(1)] by (simp add: astype_str_def)
  have src: "get_col ''KEY'' ?tt = Some (astype_str keys)"
    by (rule get_col_set_col_same[OF len])
  have other: "get_col c ?tt = get_col c transition" if "c \<noteq> ''KEY''" for c
    using get_col_set_col_other[OF len that] .
  have same: "?tt = transition" if "astype_str keys = keys"
    unfolding that by (rule set_col_same[OF assms(1)])
  have diff: "astype_str keys = keys" if "?tt = transition"
    using src assms(1) unfolding that by simp
  have iff: "?tt = transition \<longleftrightarrow> astype_str keys = keys"
    using same diff by blast
  show ?thesis
    unfolding run_rows[OF assms]
    using src other iff assms(2) by simp
qed

theorem run_transition_table_witness:
  "get_col ''KEY'' [[(''KEY'', Num 7), (''Shop Code'', Str ''007'')]] = Some [Num 7]
   \<and> get_col ''Shop Code'' [[(''KEY'', Num 7), (''Shop Code'', Str ''007'')]] = Some [Str ''007'']
   \<and> map_option df_transition (run [''201701           7'']
                                   [[(''KEY'', Num 7), (''Shop Code'', Str ''007'')]])
       = Some [[(''KEY'', Str ''7''), (''Shop Code'', Str ''007'')]]"
proof -
  let ?T = "[[(''KEY'', Num 7), (''Shop Code'', Str ''007'')]]"
  have h1: "get_col ''KEY'' ?T = Some [Num 7]" by code_simp
  have h2: "get_col ''Shop Code'' ?T = Some [Str ''007'']" by code_simp
  have e: "map_option df_transition (run [''201701           7''] ?T)
       = Some [[(''KEY'', Str ''7''), (''Shop Code'', Str ''007'')]]"
    by code_simp
  from run_transition_table[OF h1 h2, of "[''201701           7'']"] h1 h2 e
  show ?thesis by blast
qed

end
